theory Spec2Isabelle
  imports Main "HOL-Library.FSet" "HOL-Library.AList"
begin

section \<open>The Developer agent's task coordinator (dummy.py, class DevAgent)\<close>

text \<open>
  The model follows the Python class field by field. Task objects are mutable and shared
  between the pending table and the ready queue, so they live in an explicit store
  (\<open>heap\<close>) and the containers hold references. Python sets are finite sets, the
  insertion-ordered dictionary \<open>waiting_for_dependencies\<close> is an association list, and
  the pending table (never iterated by the modelled code) is a map.

  Cooperative scheduling: every method body is run as one atomic step. The two places
  where control really leaves a coroutine are kept apart: \<open>asyncio.create_task\<close> only
  records a coroutine (\<open>created\<close>), which starts later (\<open>start_next\<close>), and the
  coroutine is suspended inside \<open>execute_task\<close> (\<open>running\<close>) until the generation
  stream ends (\<open>finish_execution\<close>). The coordinator's own notifications do not change
  its state and are taken as delivered; those of \<open>execute_task\<close> go through a sink that
  may raise, and are returned as a list.

  The fields title, description, estimated_hours, complexity and agent_type of a task are
  only formatted into prompts and messages and are not part of the record.
\<close>

subsection \<open>Data\<close>

type_synonym task_id = string
type_synonym ref = nat

datatype TaskStatus = PENDING | IN_PROGRESS | COMPLETED | FAILED | SKIPPED

record Task =
  id_t :: task_id
  priority :: int
  status :: TaskStatus
  dependencies :: "task_id list"

record DevAgent =
  heap :: "ref \<Rightarrow> Task"
  plan_context :: "(string \<times> string \<times> string) option"
  pending_tasks :: "task_id \<rightharpoonup> ref"
  completed_tasks :: "task_id fset"
  in_progress_tasks :: "task_id fset"
  task_queue :: "ref list"
  dependency_graph :: "(task_id \<times> task_id list) list"
  waiting_for_dependencies :: "(task_id \<times> task_id fset) list"
  is_plan_complete :: bool
  is_processing_active :: bool
  max_concurrent_tasks :: nat
  created :: "ref list"
  running :: "(ref \<times> bool) list"

text \<open>The state built by \<open>__init__\<close>, over a store of task objects.\<close>

definition init :: "(ref \<Rightarrow> Task) \<Rightarrow> DevAgent" where
  "init h =
     \<lparr> heap = h, plan_context = None, pending_tasks = Map.empty,
       completed_tasks = {||}, in_progress_tasks = {||}, task_queue = [],
       dependency_graph = [], waiting_for_dependencies = [],
       is_plan_complete = False, is_processing_active = False,
       max_concurrent_tasks = 2, created = [], running = [] \<rparr>"

text \<open>\<open>[t.id for t in self.task_queue]\<close>\<close>

definition queue_ids :: "DevAgent \<Rightarrow> task_id list" where
  "queue_ids s = map (\<lambda>r. id_t (heap s r)) (task_queue s)"

subsection \<open>Admission\<close>

text \<open>
  The while loop of \<open>_process_ready_tasks\<close>. The popped task is handed to
  \<open>asyncio.create_task\<close>; the in-flight set is not touched here.
\<close>

function process_loop :: "DevAgent \<Rightarrow> DevAgent" where
  "process_loop s =
     (if fcard (in_progress_tasks s) < max_concurrent_tasks s \<and> task_queue s \<noteq> []
         \<and> is_processing_active s
      then (let r = hd (task_queue s);
                s1 = s\<lparr>task_queue := tl (task_queue s)\<rparr>
            in if id_t (heap s1 r) |\<notin>| in_progress_tasks s1
               then process_loop (s1\<lparr>created := created s1 @ [r]\<rparr>)
               else process_loop s1)
      else s)"
  by pat_completeness auto
termination
  by (relation "measure (\<lambda>s. length (task_queue s))") auto

declare process_loop.simps [simp del]

definition process_ready_tasks :: "DevAgent \<Rightarrow> DevAgent" where
  "process_ready_tasks s = (if \<not> is_processing_active s then s else process_loop s)"

definition add_to_execution_queue :: "DevAgent \<Rightarrow> ref \<Rightarrow> DevAgent" where
  "add_to_execution_queue s r =
     (if id_t (heap s r) \<notin> set (queue_ids s)
      then process_ready_tasks (s\<lparr>task_queue := task_queue s @ [r]\<rparr>)
      else s)"

subsection \<open>Task arrival and readiness\<close>

definition evaluate_task_readiness :: "DevAgent \<Rightarrow> ref \<Rightarrow> DevAgent" where
  "evaluate_task_readiness s r =
     (let t = heap s r
      in if dependencies t = [] then add_to_execution_queue s r
         else (let unmet_dependencies =
                     filter (\<lambda>dep_id. dep_id |\<notin>| completed_tasks s) (dependencies t)
               in if unmet_dependencies = [] then add_to_execution_queue s r
                  else s\<lparr>waiting_for_dependencies :=
                           AList.update (id_t t) (fset_of_list unmet_dependencies)
                             (waiting_for_dependencies s)\<rparr>))"

definition handle_task_from_pm :: "DevAgent \<Rightarrow> ref \<Rightarrow> DevAgent" where
  "handle_task_from_pm s r =
     (let t = heap s r;
          s1 = s\<lparr>pending_tasks := (pending_tasks s)(id_t t \<mapsto> r)\<rparr>;
          s2 = (if dependencies t \<noteq> []
                then s1\<lparr>dependency_graph :=
                          AList.update (id_t t) (dependencies t) (dependency_graph s1),
                        waiting_for_dependencies :=
                          AList.update (id_t t) (fset_of_list (dependencies t))
                            (waiting_for_dependencies s1)\<rparr>
                else s1)
      in evaluate_task_readiness s2 r)"

definition handle_plan_start :: "DevAgent \<Rightarrow> string \<Rightarrow> string \<Rightarrow> string \<Rightarrow> DevAgent" where
  "handle_plan_start s plan_id plan_title plan_description =
     s\<lparr>pending_tasks := Map.empty, completed_tasks := {||}, in_progress_tasks := {||},
       task_queue := [], dependency_graph := [], waiting_for_dependencies := [],
       is_plan_complete := False, is_processing_active := True,
       plan_context := Some (plan_id, plan_title, plan_description)\<rparr>"

definition handle_plan_complete :: "DevAgent \<Rightarrow> DevAgent" where
  "handle_plan_complete s = process_ready_tasks (s\<lparr>is_plan_complete := True\<rparr>)"

subsection \<open>Completion and the unblock cascade\<close>

text \<open>
  The first loop of \<open>_check_unblocked_tasks\<close>, over the items of the waiting dictionary
  in their order: the new items and the list \<open>unblocked_tasks\<close>.
\<close>

fun unblock_loop ::
  "task_id \<Rightarrow> (task_id \<rightharpoonup> ref) \<Rightarrow> (task_id \<times> task_id fset) list
     \<Rightarrow> (task_id \<times> task_id fset) list \<times> ref list" where
  "unblock_loop c p [] = ([], [])"
| "unblock_loop c p ((k, w) # rest) =
     (let (ws, us) = unblock_loop c p rest
      in if c |\<in>| w
         then (let w' = w |-| {|c|}
               in ((k, w') # ws,
                   (if w' = {||}
                    then (case p k of Some r \<Rightarrow> r # us | None \<Rightarrow> us)
                    else us)))
         else ((k, w) # ws, us))"

definition check_unblocked_tasks :: "DevAgent \<Rightarrow> task_id \<Rightarrow> DevAgent" where
  "check_unblocked_tasks s completed_task_id =
     (let (ws, unblocked_tasks) =
            unblock_loop completed_task_id (pending_tasks s) (waiting_for_dependencies s)
      in foldl add_to_execution_queue (s\<lparr>waiting_for_dependencies := ws\<rparr>) unblocked_tasks)"

text \<open>
  What \<open>_execute_task_with_coordination\<close> does once \<open>execute_task\<close> has returned
  (lines 196 to 201): the bookkeeping called \<open>complete\<close> in the specification.
\<close>

definition mark_completed :: "DevAgent \<Rightarrow> task_id \<Rightarrow> DevAgent" where
  "mark_completed s i =
     check_unblocked_tasks
       (s\<lparr>completed_tasks := finsert i (completed_tasks s),
          in_progress_tasks := in_progress_tasks s |-| {|i|}\<rparr>) i"

subsection \<open>Operator controls\<close>

definition pause_processing :: "DevAgent \<Rightarrow> DevAgent" where
  "pause_processing s = s\<lparr>is_processing_active := False\<rparr>"

definition resume_processing :: "DevAgent \<Rightarrow> DevAgent" where
  "resume_processing s = process_ready_tasks (s\<lparr>is_processing_active := True\<rparr>)"

definition handle_emergency_stop :: "DevAgent \<Rightarrow> DevAgent" where
  "handle_emergency_stop s = s\<lparr>is_processing_active := False, task_queue := []\<rparr>"

definition force_complete_task :: "DevAgent \<Rightarrow> task_id \<Rightarrow> bool \<times> DevAgent" where
  "force_complete_task s i =
     (if i \<in> dom (pending_tasks s)
      then (True,
            check_unblocked_tasks
              (s\<lparr>completed_tasks := finsert i (completed_tasks s),
                 in_progress_tasks := in_progress_tasks s |-| {|i|},
                 task_queue := filter (\<lambda>r. id_t (heap s r) \<noteq> i) (task_queue s)\<rparr>) i)
      else (False, s))"

definition reset_task_status :: "DevAgent \<Rightarrow> task_id \<Rightarrow> bool \<times> DevAgent" where
  "reset_task_status s i =
     (let s1 = s\<lparr>completed_tasks := completed_tasks s |-| {|i|},
                 in_progress_tasks := in_progress_tasks s |-| {|i|},
                 task_queue := filter (\<lambda>r. id_t (heap s r) \<noteq> i) (task_queue s)\<rparr>
      in case pending_tasks s1 i of
           Some r \<Rightarrow> (True, evaluate_task_readiness s1 r)
         | None \<Rightarrow> (False, s1))"

text \<open>
  The reinsertion loop of \<open>handle_priority_change\<close>: before the first queued task whose
  priority is smaller than the moved task's, else at the end.
\<close>

fun insert_by_priority :: "(ref \<Rightarrow> Task) \<Rightarrow> ref \<Rightarrow> ref list \<Rightarrow> ref list" where
  "insert_by_priority h r [] = [r]"
| "insert_by_priority h r (q # qs) =
     (if priority (h r) > priority (h q) then r # q # qs
      else q # insert_by_priority h r qs)"

text \<open>
  The class \<open>Task\<close> is not among the sources; \<open>task in self.task_queue\<close> is taken as
  membership of the object itself, which Python tests first.
\<close>

definition handle_priority_change :: "DevAgent \<Rightarrow> task_id \<Rightarrow> int \<Rightarrow> bool \<times> DevAgent" where
  "handle_priority_change s i new_priority =
     (case pending_tasks s i of
        None \<Rightarrow> (False, s)
      | Some r \<Rightarrow>
          (let s1 = s\<lparr>heap := (heap s)(r := (heap s r)\<lparr>priority := new_priority\<rparr>)\<rparr>
           in if r \<in> set (task_queue s1)
              then (True, s1\<lparr>task_queue :=
                                insert_by_priority (heap s1) r (remove1 r (task_queue s1))\<rparr>)
              else (True, s1)))"

text \<open>
  \<open>handle_task_update\<close> sets attributes of a pending task from a dictionary; the
  entries for the fields of the record are modelled.
\<close>

record task_updates =
  new_priority :: "int option"
  new_status :: "TaskStatus option"
  new_dependencies :: "task_id list option"

definition apply_updates :: "task_updates \<Rightarrow> Task \<Rightarrow> Task" where
  "apply_updates u t =
     (let t1 = (case new_priority u of Some p \<Rightarrow> t\<lparr>priority := p\<rparr> | None \<Rightarrow> t);
          t2 = (case new_status u of Some x \<Rightarrow> t1\<lparr>status := x\<rparr> | None \<Rightarrow> t1)
      in case new_dependencies u of Some d \<Rightarrow> t2\<lparr>dependencies := d\<rparr> | None \<Rightarrow> t2)"

definition handle_task_update :: "DevAgent \<Rightarrow> task_id \<Rightarrow> task_updates \<Rightarrow> bool \<times> DevAgent" where
  "handle_task_update s i u =
     (case pending_tasks s i of
        None \<Rightarrow> (False, s)
      | Some r \<Rightarrow>
          (let s1 = s\<lparr>heap := (heap s)(r := apply_updates u (heap s r))\<rparr>
           in case new_dependencies u of
                Some d \<Rightarrow>
                  (True,
                   evaluate_task_readiness
                     (s1\<lparr>dependency_graph :=
                           AList.update i (dependencies (heap s1 r)) (dependency_graph s1)\<rparr>) r)
              | None \<Rightarrow> (True, s1)))"

text \<open>\<open>shutdown\<close> stops admission and then only waits.\<close>

definition shutdown :: "DevAgent \<Rightarrow> DevAgent" where
  "shutdown s = s\<lparr>is_processing_active := False\<rparr>"

subsection \<open>The task executor\<close>

text \<open>
  \<open>execute_task\<close> talks to the notification sink, the file system and the generation
  service. Their behaviour in one call is the environment of the call: which operation
  raises what, whether the sink raises on a notification (given those sent so far), and the
  chunks the stream delivers. Exceptions are values. \<open>LLMError\<close>, \<open>ValueError\<close>,
  \<open>OSError\<close> and \<open>OtherException\<close> stand for subclasses of \<open>Exception\<close>;
  \<open>CancelledError\<close> and \<open>KeyboardInterrupt\<close> derive from \<open>BaseException\<close> only, so
  no \<open>except Exception\<close> clause catches them.

  Generated text is a list of Unicode code points; \<open>py_isspace\<close> is the white space that
  \<open>str.strip\<close> removes.
\<close>

datatype exn =
    LLMError string
  | ValueError string
  | OSError string
  | OtherException string
  | CancelledError
  | KeyboardInterrupt

fun is_exception :: "exn \<Rightarrow> bool" where
  "is_exception CancelledError = False"
| "is_exception KeyboardInterrupt = False"
| "is_exception e = True"

type_synonym py_str = "nat list"

datatype event =
    task_status_update task_id TaskStatus
  | llm_request task_id
  | dev_agent_llm_streaming_chunk task_id py_str
  | llm_response_complete task_id
  | error_event task_id
  | file_generated task_id string

record exec_env =
  sink_raises :: "event list \<Rightarrow> event \<Rightarrow> exn option"
  iterdir_raises :: "exn option"
  mkdir_raises :: "exn option"
  llm_chunks :: "py_str list"
  llm_raises :: "exn option"
  write_main_raises :: "exn option"
  write_fallback_raises :: "exn option"
  write_metadata_raises :: "exn option"

definition py_isspace :: "nat \<Rightarrow> bool" where
  "py_isspace n =
     ((0x09 \<le> n \<and> n \<le> 0x0D) \<or> (0x1C \<le> n \<and> n \<le> 0x20) \<or> n = 0x85 \<or> n = 0xA0
      \<or> n = 0x1680 \<or> (0x2000 \<le> n \<and> n \<le> 0x200A) \<or> n = 0x2028 \<or> n = 0x2029
      \<or> n = 0x202F \<or> n = 0x205F \<or> n = 0x3000)"

definition strip :: "py_str \<Rightarrow> py_str" where
  "strip s = rev (dropWhile py_isspace (rev (dropWhile py_isspace s)))"

text \<open>
  A computation of the executor runs on the notifications sent so far and the task object
  it works on, and ends with a value or with a raised exception.
\<close>

type_synonym exec_state = "event list \<times> Task"
type_synonym 'a io = "exec_state \<Rightarrow> exec_state \<times> (exn + 'a)"

definition ret :: "'a \<Rightarrow> 'a io" where
  "ret x st = (st, Inr x)"

definition throw :: "exn \<Rightarrow> 'a io" where
  "throw e st = (st, Inl e)"

definition bnd :: "'a io \<Rightarrow> ('a \<Rightarrow> 'b io) \<Rightarrow> 'b io" where
  "bnd m f st =
     (case m st of
        (st', res) \<Rightarrow> (case res of Inl e \<Rightarrow> (st', Inl e) | Inr x \<Rightarrow> f x st'))"

text \<open>\<open>try: m except Exception as e: h e\<close>\<close>

definition except_Exception :: "'a io \<Rightarrow> (exn \<Rightarrow> 'a io) \<Rightarrow> 'a io" where
  "except_Exception m h st =
     (case m st of
        (st', res) \<Rightarrow>
          (case res of
             Inl e \<Rightarrow> if is_exception e then h e st' else (st', Inl e)
           | Inr x \<Rightarrow> (st', Inr x)))"

text \<open>\<open>await self.websocket_manager.broadcast_message(...)\<close>\<close>

definition broadcast :: "exec_env \<Rightarrow> event \<Rightarrow> unit io" where
  "broadcast env ev st =
     (case sink_raises env (fst st) ev of
        Some e \<Rightarrow> (st, Inl e)
      | None \<Rightarrow> ((fst st @ [ev], snd st), Inr ()))"

text \<open>A call into the file system or the generation service that may raise.\<close>

definition may_raise :: "exn option \<Rightarrow> unit io" where
  "may_raise r = (case r of Some e \<Rightarrow> throw e | None \<Rightarrow> ret ())"

definition set_status :: "TaskStatus \<Rightarrow> unit io" where
  "set_status x st = ((fst st, (snd st)\<lparr>status := x\<rparr>), Inr ())"

definition get_task :: "Task io" where
  "get_task st = (st, Inr (snd st))"

text \<open>
  The stream: each chunk goes through \<open>stream_chunk_callback\<close>, which notifies the sink.
  An exception raised in the callback is taken to pass through the generation service, which
  is not among the sources, to the handlers of \<open>_stream_code_from_llm\<close>.
\<close>

fun send_chunks :: "exec_env \<Rightarrow> task_id \<Rightarrow> py_str list \<Rightarrow> unit io" where
  "send_chunks env i [] st = (st, Inr ())"
| "send_chunks env i (c # cs) st =
     (case broadcast env (dev_agent_llm_streaming_chunk i c) st of
        (st', res) \<Rightarrow>
          (case res of Inl e \<Rightarrow> (st', Inl e) | Inr u \<Rightarrow> send_chunks env i cs st'))"

definition stream_code_from_llm :: "exec_env \<Rightarrow> task_id \<Rightarrow> py_str io" where
  "stream_code_from_llm env i =
     bnd (broadcast env (llm_request i)) (\<lambda>_.
       except_Exception
         (bnd (send_chunks env i (llm_chunks env)) (\<lambda>_.
          bnd (may_raise (llm_raises env)) (\<lambda>_.
          bnd (broadcast env (llm_response_complete i)) (\<lambda>_.
          ret (concat (llm_chunks env))))))
         (\<lambda>e. bnd (broadcast env (error_event i)) (\<lambda>_. throw e)))"

text \<open>The inner try of \<open>execute_task\<close>: writing implementation.py, with its handler.\<close>

definition save_main_file :: "exec_env \<Rightarrow> task_id \<Rightarrow> unit io" where
  "save_main_file env i =
     except_Exception
       (bnd (may_raise (write_main_raises env)) (\<lambda>_.
        broadcast env (file_generated i ''python'')))
       (\<lambda>file_error.
          bnd (may_raise (write_fallback_raises env)) (\<lambda>_.
          broadcast env (error_event i)))"

text \<open>The body of the outer try of \<open>execute_task\<close>.\<close>

definition try_block :: "exec_env \<Rightarrow> task_id \<Rightarrow> Task io" where
  "try_block env i =
     bnd (stream_code_from_llm env i) (\<lambda>code_output.
     bnd (save_main_file env i) (\<lambda>_.
     bnd (if strip code_output = []
          then throw (ValueError ''LLM generated empty or very short code output.'')
          else ret ()) (\<lambda>_.
     bnd (may_raise (write_metadata_raises env)) (\<lambda>_.
     bnd (broadcast env (file_generated i ''json'')) (\<lambda>_.
     bnd (set_status COMPLETED) (\<lambda>_.
     bnd (broadcast env (task_status_update i COMPLETED)) (\<lambda>_.
     get_task)))))))"

text \<open>
  \<open>execute_task\<close> in two parts. \<open>execute_prefix\<close> is what runs before the try: the
  status, the first notification, \<open>clear_task_output\<close> (whose \<open>iterdir\<close> is outside its
  own handler) and \<open>mkdir\<close>. \<open>execute_rest\<close> is the try with its two handlers, which do
  the same.
\<close>

definition execute_prefix :: "exec_env \<Rightarrow> task_id \<Rightarrow> unit io" where
  "execute_prefix env i =
     bnd (set_status IN_PROGRESS) (\<lambda>_.
     bnd (broadcast env (task_status_update i IN_PROGRESS)) (\<lambda>_.
     bnd (may_raise (iterdir_raises env)) (\<lambda>_.
     may_raise (mkdir_raises env))))"

definition execute_rest :: "exec_env \<Rightarrow> task_id \<Rightarrow> Task io" where
  "execute_rest env i =
     except_Exception (try_block env i)
       (\<lambda>e. bnd (set_status FAILED) (\<lambda>_.
            bnd (broadcast env (task_status_update i FAILED)) (\<lambda>_.
            get_task)))"

text \<open>
  The result of a call: the notifications sent, the task object as the call leaves it, and
  the exception that leaves the call or the task returned.
\<close>

definition execute_task :: "exec_env \<Rightarrow> Task \<Rightarrow> exec_state \<times> (exn + Task)" where
  "execute_task env t =
     bnd (execute_prefix env (id_t t)) (\<lambda>_. execute_rest env (id_t t)) ([], t)"

subsection \<open>The execution wrapper, as two steps of a coroutine\<close>

text \<open>
  \<open>start_next\<close>: the event loop starts the oldest coroutine made by
  \<open>asyncio.create_task\<close>; it runs \<open>_execute_task_with_coordination\<close> up to the point
  where \<open>execute_task\<close> waits for the stream. When the part of \<open>execute_task\<close> before the
  stream raises, the wrapper ends at once: its handler, an \<open>except Exception\<close>, takes the
  id out of the in-flight set, and any other exception ends the coroutine with the id left
  in. \<open>_enhance_task_with_context\<close> returns the task object itself when there is no plan
  context and a copy otherwise; the flag kept with the running coroutine says which.
\<close>

definition start_next :: "DevAgent \<Rightarrow> exec_env \<Rightarrow> DevAgent" where
  "start_next s env =
     (case created s of
        [] \<Rightarrow> s
      | r # rest \<Rightarrow>
          (let s0 = s\<lparr>created := rest\<rparr>; i = id_t (heap s0 r)
           in if i |\<in>| in_progress_tasks s0 then s0
              else (let same_object = (plan_context s0 = None);
                        s1 = s0\<lparr>in_progress_tasks := finsert i (in_progress_tasks s0)\<rparr>
                    in case execute_prefix env i ([], heap s1 r) of
                         (st, res) \<Rightarrow>
                           (let s2 = (if same_object
                                      then s1\<lparr>heap := (heap s1)(r := snd st)\<rparr> else s1)
                            in case res of
                                 Inr u \<Rightarrow> s2\<lparr>running := running s2 @ [(r, same_object)]\<rparr>
                               | Inl e \<Rightarrow>
                                   if is_exception e
                                   then s2\<lparr>in_progress_tasks :=
                                             in_progress_tasks s2 |-| {|i|}\<rparr>
                                   else s2))))"

text \<open>
  \<open>finish_execution\<close>: the stream has ended in the coroutine of task object \<open>r\<close>;
  \<open>execute_task\<close> runs from there to its end, and so does the wrapper. The executor
  works on the task object itself or on the copy made at the start, which has the fields of
  the object and the status IN_PROGRESS.
\<close>

definition finish_execution :: "DevAgent \<Rightarrow> ref \<Rightarrow> exec_env \<Rightarrow> DevAgent" where
  "finish_execution s r env =
     (case map_of (running s) r of
        None \<Rightarrow> s
      | Some same_object \<Rightarrow>
          (let s0 = s\<lparr>running := remove1 (r, same_object) (running s)\<rparr>;
               i = id_t (heap s0 r);
               enhanced_task = (if same_object then heap s0 r
                                else (heap s0 r)\<lparr>status := IN_PROGRESS\<rparr>)
           in case execute_rest env i ([task_status_update i IN_PROGRESS], enhanced_task) of
                (st, res) \<Rightarrow>
                  (let s1 = (if same_object
                             then s0\<lparr>heap := (heap s0)(r := snd st)\<rparr> else s0)
                   in case res of
                        Inr completed_task \<Rightarrow> mark_completed s1 i
                      | Inl e \<Rightarrow>
                          if is_exception e
                          then s1\<lparr>in_progress_tasks := in_progress_tasks s1 |-| {|i|}\<rparr>
                          else s1)))"

subsection \<open>Task objects and environments used in the scenarios\<close>

definition mk_task :: "task_id \<Rightarrow> task_id list \<Rightarrow> Task" where
  "mk_task i deps = \<lparr>id_t = i, priority = 0, status = PENDING, dependencies = deps\<rparr>"

text \<open>Object 0 is task A, object 1 is B (which depends on A), objects 2 and 3 are C and E.\<close>

definition store :: "ref \<Rightarrow> Task" where
  "store r =
     (if r = 0 then mk_task ''A'' []
      else if r = 1 then mk_task ''B'' [''A'']
      else if r = 2 then mk_task ''C'' []
      else mk_task ''E'' [])"

text \<open>Nothing raises; the stream delivers the given chunks.\<close>

definition env_ok :: "py_str list \<Rightarrow> exec_env" where
  "env_ok chunks =
     \<lparr>sink_raises = (\<lambda>sent ev. None), iterdir_raises = None, mkdir_raises = None,
      llm_chunks = chunks, llm_raises = None, write_main_raises = None,
      write_fallback_raises = None, write_metadata_raises = None\<rparr>"

text \<open>The text \<open>x = 1\<close>, as code points.\<close>

definition some_code :: "py_str list" where
  "some_code = [[0x78, 0x20, 0x3D, 0x20, 0x31]]"

text \<open>Two chunks of white space: a space with a line feed, and an ideographic space.\<close>

definition env_blank :: exec_env where
  "env_blank = env_ok [[0x20, 0x0A], [0x3000]]"

definition env_no_dir :: exec_env where
  "env_no_dir = (env_ok some_code)\<lparr>mkdir_raises := Some (OSError ''File name too long'')\<rparr>"

text \<open>The coroutine is cancelled while it waits for the stream.\<close>

definition env_cancelled :: exec_env where
  "env_cancelled = (env_ok [])\<lparr>llm_raises := Some CancelledError\<rparr>"

text \<open>The generation service fails, and the sink raises on the FAILED notification.\<close>

definition env_sink_down :: exec_env where
  "env_sink_down =
     (env_ok [])\<lparr>llm_raises := Some (LLMError ''upstream''),
                 sink_raises := (\<lambda>sent ev.
                    if ev = task_status_update ''A'' FAILED
                    then Some (OtherException ''connection closed'') else None)\<rparr>"

text \<open>The exceptions an operation may raise are subclasses of \<open>Exception\<close>.\<close>

definition only_exception :: "exn option \<Rightarrow> bool" where
  "only_exception r = (case r of Some e \<Rightarrow> is_exception e | None \<Rightarrow> True)"

text \<open>A plan has been started on a fresh agent.\<close>

definition plan0 :: DevAgent where
  "plan0 = handle_plan_start (init store) ''p1'' ''Shop'' ''A web shop''"

text \<open>B, then A, have arrived and the coroutine of A has started.\<close>

definition fail_run :: DevAgent where
  "fail_run =
     start_next (handle_task_from_pm (handle_task_from_pm plan0 1) 0) (env_ok some_code)"

text \<open>A, C and E arrive while processing is paused; then processing is resumed.\<close>

definition burst :: DevAgent where
  "burst = resume_processing
     (handle_task_from_pm
        (handle_task_from_pm (handle_task_from_pm (pause_processing plan0) 0) 2) 3)"

text \<open>A has run to completion, processing is paused, and B (depending on A) arrives.\<close>

definition late_B :: DevAgent where
  "late_B = handle_task_from_pm
     (pause_processing
        (finish_execution (start_next (handle_task_from_pm plan0 0) (env_ok some_code))
           0 (env_ok some_code)))
     1"

text \<open>A is in flight and processing is paused.\<close>

definition in_flight_A :: DevAgent where
  "in_flight_A =
     pause_processing (start_next (handle_task_from_pm plan0 0) (env_ok some_code))"

text \<open>A arrives while processing is paused, so it stays in the queue.\<close>

definition queued_A :: DevAgent where
  "queued_A = handle_task_from_pm (pause_processing plan0) 0"

text \<open>B and A arrive while processing is paused: B waits for A, A is queued.\<close>

definition blocked_B :: DevAgent where
  "blocked_B = handle_task_from_pm (handle_task_from_pm (pause_processing plan0) 1) 0"

text \<open>A is in flight when a second plan starts; then the execution of A ends.\<close>

definition stale :: DevAgent where
  "stale = finish_execution
      (handle_plan_start (start_next (handle_task_from_pm plan0 0) (env_ok some_code))
         ''p2'' ''Blog'' ''A blog'')
      0 (env_ok some_code)"

text \<open>A and C are in flight, E is queued behind them, and processing is paused.\<close>

definition full_E :: DevAgent where
  "full_E = pause_processing (handle_task_from_pm
      (start_next
         (handle_task_from_pm (start_next (handle_task_from_pm plan0 0) (env_ok some_code)) 2)
         (env_ok some_code)) 3)"

text \<open>A, C and E are queued in this order, all with priority 0.\<close>

definition three_queued :: DevAgent where
  "three_queued =
     handle_task_from_pm
       (handle_task_from_pm (handle_task_from_pm (pause_processing plan0) 0) 2) 3"

subsection \<open>The operations as steps of one system\<close>

datatype action =
    PlanStart string string string
  | TaskFromPM ref
  | PlanComplete
  | Pause
  | Resume
  | EmergencyStop
  | Shutdown
  | PriorityChange task_id int
  | TaskUpdate task_id task_updates
  | ForceComplete task_id
  | ResetStatus task_id
  | StartNext exec_env
  | Finish ref exec_env

fun step :: "DevAgent \<Rightarrow> action \<Rightarrow> DevAgent" where
  "step s (PlanStart a b c) = handle_plan_start s a b c"
| "step s (TaskFromPM r) = handle_task_from_pm s r"
| "step s PlanComplete = handle_plan_complete s"
| "step s Pause = pause_processing s"
| "step s Resume = resume_processing s"
| "step s EmergencyStop = handle_emergency_stop s"
| "step s Shutdown = shutdown s"
| "step s (PriorityChange i p) = snd (handle_priority_change s i p)"
| "step s (TaskUpdate i u) = snd (handle_task_update s i u)"
| "step s (ForceComplete i) = snd (force_complete_task s i)"
| "step s (ResetStatus i) = snd (reset_task_status s i)"
| "step s (StartNext env) = start_next s env"
| "step s (Finish r env) = finish_execution s r env"

text \<open>The two operations that switch processing on.\<close>

fun activates :: "action \<Rightarrow> bool" where
  "activates (PlanStart a b c) = True"
| "activates Resume = True"
| "activates e = False"

text \<open>The operator actions that take a queued task out of the queue on purpose.\<close>

fun discards :: "DevAgent \<Rightarrow> action \<Rightarrow> ref \<Rightarrow> bool" where
  "discards s EmergencyStop r = True"
| "discards s (ForceComplete i) r = (id_t (heap s r) = i)"
| "discards s (ResetStatus i) r = (id_t (heap s r) = i)"
| "discards s e r = False"

text \<open>The ids of the coroutines that were launched and have not started yet.\<close>

definition created_ids :: "DevAgent \<Rightarrow> task_id fset" where
  "created_ids s = fset_of_list (map (\<lambda>r. id_t (heap s r)) (created s))"

text \<open>
  The slots left when the ids in flight and the coroutines launched but not yet started are
  counted against the limit.
\<close>

definition free_slots :: "DevAgent \<Rightarrow> nat" where
  "free_slots s =
     max_concurrent_tasks s - (fcard (in_progress_tasks s) + length (created s))"

text \<open>The list \<open>unblocked_tasks\<close> of \<open>_check_unblocked_tasks\<close>, written as a comprehension.\<close>

definition unblocked_by ::
  "task_id \<Rightarrow> (task_id \<rightharpoonup> ref) \<Rightarrow> (task_id \<times> task_id fset) list \<Rightarrow> ref list" where
  "unblocked_by c p ws =
     List.map_filter (\<lambda>(k, w). if c |\<in>| w \<and> w |-| {|c|} = {||} then p k else None) ws"

section \<open>Properties\<close>

subsection \<open>Admission in closed form\<close>

lemma process_loop_idle:
  "\<not> (fcard (in_progress_tasks s) < max_concurrent_tasks s \<and> is_processing_active s)
   \<Longrightarrow> process_loop s = s"
  by (subst process_loop.simps) auto

text \<open>
  With a free slot the loop empties the whole queue: its condition reads the in-flight set,
  which only the launched coroutines extend, later.
\<close>

lemma process_loop_drain:
  "fcard (in_progress_tasks s) < max_concurrent_tasks s \<Longrightarrow> is_processing_active s \<Longrightarrow>
   process_loop s =
     s\<lparr>task_queue := [],
       created := created s @
         filter (\<lambda>r. id_t (heap s r) |\<notin>| in_progress_tasks s) (task_queue s)\<rparr>"
proof (induction "task_queue s" arbitrary: s)
  case Nil
  then show ?case by (subst process_loop.simps) simp
next
  case (Cons r rest)
  from Cons(2) have q: "task_queue s = r # rest" by simp
  show ?case
  proof (cases "id_t (heap s r) |\<in>| in_progress_tasks s")
    case True
    let ?s1 = "s\<lparr>task_queue := rest\<rparr>"
    have "process_loop s = process_loop ?s1"
      using Cons(3,4) q True by (subst process_loop.simps) (simp add: Let_def)
    also have "\<dots> = ?s1\<lparr>task_queue := [],
       created := created ?s1 @
         filter (\<lambda>r. id_t (heap ?s1 r) |\<notin>| in_progress_tasks ?s1) (task_queue ?s1)\<rparr>"
      using Cons(3,4) by (intro Cons(1)) simp_all
    finally show ?thesis using q True by simp
  next
    case False
    let ?s1 = "s\<lparr>task_queue := rest, created := created s @ [r]\<rparr>"
    have "process_loop s = process_loop ?s1"
      using Cons(3,4) q False by (subst process_loop.simps) (simp add: Let_def)
    also have "\<dots> = ?s1\<lparr>task_queue := [],
       created := created ?s1 @
         filter (\<lambda>r. id_t (heap ?s1 r) |\<notin>| in_progress_tasks ?s1) (task_queue ?s1)\<rparr>"
      using Cons(3,4) by (intro Cons(1)) simp_all
    finally show ?thesis using q False by simp
  qed
qed

lemma process_ready_tasks_eq:
  "process_ready_tasks s =
     (if is_processing_active s \<and> fcard (in_progress_tasks s) < max_concurrent_tasks s
      then s\<lparr>task_queue := [],
             created := created s @
               filter (\<lambda>r. id_t (heap s r) |\<notin>| in_progress_tasks s) (task_queue s)\<rparr>
      else s)"
  by (simp add: process_ready_tasks_def process_loop_idle process_loop_drain)

lemma add_to_execution_queue_fields [simp]:
  "heap (add_to_execution_queue s r) = heap s"
  "pending_tasks (add_to_execution_queue s r) = pending_tasks s"
  "completed_tasks (add_to_execution_queue s r) = completed_tasks s"
  "in_progress_tasks (add_to_execution_queue s r) = in_progress_tasks s"
  "waiting_for_dependencies (add_to_execution_queue s r) = waiting_for_dependencies s"
  "is_processing_active (add_to_execution_queue s r) = is_processing_active s"
  "max_concurrent_tasks (add_to_execution_queue s r) = max_concurrent_tasks s"
  "running (add_to_execution_queue s r) = running s"
  by (simp_all add: add_to_execution_queue_def process_ready_tasks_eq)

lemma foldl_add_fields [simp]:
  "heap (foldl add_to_execution_queue s rs) = heap s"
  "pending_tasks (foldl add_to_execution_queue s rs) = pending_tasks s"
  "completed_tasks (foldl add_to_execution_queue s rs) = completed_tasks s"
  "in_progress_tasks (foldl add_to_execution_queue s rs) = in_progress_tasks s"
  "waiting_for_dependencies (foldl add_to_execution_queue s rs) = waiting_for_dependencies s"
  "is_processing_active (foldl add_to_execution_queue s rs) = is_processing_active s"
  "max_concurrent_tasks (foldl add_to_execution_queue s rs) = max_concurrent_tasks s"
  "running (foldl add_to_execution_queue s rs) = running s"
  by (induction rs arbitrary: s; simp)+

subsection \<open>The unblock cascade in closed form\<close>

lemma unblock_loop_eq:
  "unblock_loop c p ws = (map (\<lambda>(k, w). (k, w |-| {|c|})) ws, unblocked_by c p ws)"
  by (induction ws)
     (auto simp: unblocked_by_def List.map_filter_simps split: option.splits if_splits)

lemma unblocked_by_none:
  "unblocked_by c p (map (\<lambda>(k, w). (k, w |-| {|c|})) ws) = []"
  by (induction ws) (auto simp: unblocked_by_def List.map_filter_simps)

lemma check_unblocked_tasks_eq:
  "check_unblocked_tasks s c =
     foldl add_to_execution_queue
       (s\<lparr>waiting_for_dependencies :=
            map (\<lambda>(k, w). (k, w |-| {|c|})) (waiting_for_dependencies s)\<rparr>)
       (unblocked_by c (pending_tasks s) (waiting_for_dependencies s))"
  by (simp add: check_unblocked_tasks_def unblock_loop_eq)

lemma check_unblocked_fields [simp]:
  "heap (check_unblocked_tasks s c) = heap s"
  "pending_tasks (check_unblocked_tasks s c) = pending_tasks s"
  "completed_tasks (check_unblocked_tasks s c) = completed_tasks s"
  "in_progress_tasks (check_unblocked_tasks s c) = in_progress_tasks s"
  "is_processing_active (check_unblocked_tasks s c) = is_processing_active s"
  "max_concurrent_tasks (check_unblocked_tasks s c) = max_concurrent_tasks s"
  "running (check_unblocked_tasks s c) = running s"
  by (simp_all add: check_unblocked_tasks_eq)

lemma check_unblocked_tasks_twice:
  "check_unblocked_tasks (check_unblocked_tasks s c) c = check_unblocked_tasks s c"
proof -
  let ?s' = "check_unblocked_tasks s c"
  have w: "waiting_for_dependencies ?s' =
      map (\<lambda>(k, w). (k, w |-| {|c|})) (waiting_for_dependencies s)"
    by (simp add: check_unblocked_tasks_eq)
  have m: "map (\<lambda>(k, w). (k, w |-| {|c|})) (waiting_for_dependencies ?s') =
      waiting_for_dependencies ?s'"
    unfolding w by (induction "waiting_for_dependencies s") auto
  have u: "unblocked_by c (pending_tasks ?s') (waiting_for_dependencies ?s') = []"
    unfolding w by (rule unblocked_by_none)
  show ?thesis
    by (subst check_unblocked_tasks_eq) (simp only: m u foldl_Nil, simp)
qed

subsection \<open>Reinsertion by priority\<close>

lemma insert_by_priority_eq:
  "insert_by_priority h r qs =
     takeWhile (\<lambda>q. \<not> priority (h q) < priority (h r)) qs @
     r # dropWhile (\<lambda>q. \<not> priority (h q) < priority (h r)) qs"
  by (induction qs) auto

lemma filter_insert_by_priority:
  "filter (\<lambda>q. q \<noteq> r) (insert_by_priority h r qs) = filter (\<lambda>q. q \<noteq> r) qs"
  by (induction qs) auto

lemma filter_remove1_self:
  "filter (\<lambda>q. q \<noteq> r) (remove1 r qs) = filter (\<lambda>q. q \<noteq> r) qs"
  by (induction qs) auto

lemma set_insert_by_priority: "set (insert_by_priority h r qs) = insert r (set qs)"
  by (induction qs) auto

lemma set_reinsert:
  "r \<in> set qs \<Longrightarrow> set (insert_by_priority h r (remove1 r qs)) = set qs"
proof -
  assume r: "r \<in> set qs"
  have "\<And>x. x \<in> insert r (set (remove1 r qs)) \<longleftrightarrow> x \<in> set qs"
    using r by (metis in_set_remove1 insert_iff notin_set_remove1)
  then show ?thesis by (auto simp: set_insert_by_priority)
qed

subsection \<open>Steps taken while processing is switched off\<close>

lemma add_paused:
  "\<not> is_processing_active s \<Longrightarrow>
   add_to_execution_queue s r =
     (if id_t (heap s r) \<notin> set (queue_ids s) then s\<lparr>task_queue := task_queue s @ [r]\<rparr>
      else s)"
  by (simp add: add_to_execution_queue_def process_ready_tasks_eq)

lemma add_paused_quiet:
  "\<not> is_processing_active s \<Longrightarrow>
     created (add_to_execution_queue s r) = created s \<and>
     set (task_queue s) \<subseteq> set (task_queue (add_to_execution_queue s r))"
  by (auto simp: add_paused)

lemma foldl_add_paused:
  "\<not> is_processing_active s \<Longrightarrow>
     created (foldl add_to_execution_queue s rs) = created s \<and>
     set (task_queue s) \<subseteq> set (task_queue (foldl add_to_execution_queue s rs))"
proof (induction rs arbitrary: s)
  case Nil
  then show ?case by simp
next
  case (Cons r rs)
  have p: "\<not> is_processing_active (add_to_execution_queue s r)"
    using Cons.prems by simp
  from Cons.IH [OF p] add_paused_quiet [OF Cons.prems, of r]
  show ?case by auto
qed

lemma check_unblocked_paused:
  "\<not> is_processing_active s \<Longrightarrow>
     created (check_unblocked_tasks s c) = created s \<and>
     set (task_queue s) \<subseteq> set (task_queue (check_unblocked_tasks s c))"
  using foldl_add_paused
    [of "s\<lparr>waiting_for_dependencies :=
             map (\<lambda>(k, w). (k, w |-| {|c|})) (waiting_for_dependencies s)\<rparr>"
        "unblocked_by c (pending_tasks s) (waiting_for_dependencies s)"]
  by (simp add: check_unblocked_tasks_eq)

lemma evaluate_paused:
  "\<not> is_processing_active s \<Longrightarrow>
     \<not> is_processing_active (evaluate_task_readiness s r) \<and>
     created (evaluate_task_readiness s r) = created s \<and>
     in_progress_tasks (evaluate_task_readiness s r) = in_progress_tasks s \<and>
     set (task_queue s) \<subseteq> set (task_queue (evaluate_task_readiness s r))"
  using add_paused_quiet [of s r]
  by (simp add: evaluate_task_readiness_def Let_def)

lemma paused_step:
  assumes "\<not> is_processing_active s" "\<not> activates e"
  shows "\<not> is_processing_active (step s e) \<and>
         set (created (step s e)) \<subseteq> set (created s) \<and>
         in_progress_tasks (step s e) |\<subseteq>| in_progress_tasks s |\<union>| created_ids s \<and>
         (\<forall>r. r \<in> set (task_queue s) \<and> \<not> discards s e r
              \<longrightarrow> r \<in> set (task_queue (step s e)))"
proof (cases e)
  case (TaskFromPM r)
  let ?s2 = "(if dependencies (heap s r) \<noteq> []
                then s\<lparr>pending_tasks := (pending_tasks s)(id_t (heap s r) \<mapsto> r),
                       dependency_graph :=
                          AList.update (id_t (heap s r)) (dependencies (heap s r))
                            (dependency_graph s),
                        waiting_for_dependencies :=
                          AList.update (id_t (heap s r)) (fset_of_list (dependencies (heap s r)))
                            (waiting_for_dependencies s)\<rparr>
                else s\<lparr>pending_tasks := (pending_tasks s)(id_t (heap s r) \<mapsto> r)\<rparr>)"
  have e: "step s e = evaluate_task_readiness ?s2 r"
    by (simp add: TaskFromPM handle_task_from_pm_def Let_def)
  have p: "\<not> is_processing_active ?s2" using assms(1) by simp
  show ?thesis
    unfolding e using evaluate_paused [OF p, of r] assms(1) TaskFromPM
    by (auto split: if_splits)
next
  case PlanComplete
  then show ?thesis using assms by (simp add: handle_plan_complete_def process_ready_tasks_eq)
next
  case Pause
  then show ?thesis using assms by (simp add: pause_processing_def)
next
  case EmergencyStop
  then show ?thesis using assms by (simp add: handle_emergency_stop_def)
next
  case Shutdown
  then show ?thesis using assms by (simp add: shutdown_def)
next
  case (PriorityChange i p)
  then show ?thesis using assms
    by (auto simp: handle_priority_change_def Let_def set_reinsert split: option.splits)
next
  case (TaskUpdate i u)
  show ?thesis
  proof (cases "pending_tasks s i")
    case None
    then show ?thesis using assms TaskUpdate by (simp add: handle_task_update_def)
  next
    case (Some r)
    let ?s1 = "s\<lparr>heap := (heap s)(r := apply_updates u (heap s r))\<rparr>"
    show ?thesis
    proof (cases "new_dependencies u")
      case None
      then show ?thesis using assms TaskUpdate Some by (simp add: handle_task_update_def Let_def)
    next
      case (Some d)
      let ?s2 = "?s1\<lparr>dependency_graph :=
                        AList.update i (dependencies (heap ?s1 r)) (dependency_graph ?s1)\<rparr>"
      have e: "step s e = evaluate_task_readiness ?s2 r"
        using \<open>pending_tasks s i = Some r\<close> Some
        by (simp add: TaskUpdate handle_task_update_def Let_def)
      have p: "\<not> is_processing_active ?s2" using assms(1) by simp
      show ?thesis
        unfolding e using evaluate_paused [OF p, of r] assms(1) TaskUpdate by auto
    qed
  qed
next
  case (ForceComplete i)
  show ?thesis
  proof (cases "i \<in> dom (pending_tasks s)")
    case False
    then show ?thesis using assms ForceComplete by (simp add: force_complete_task_def)
  next
    case True
    let ?s1 = "s\<lparr>completed_tasks := finsert i (completed_tasks s),
                 in_progress_tasks := in_progress_tasks s |-| {|i|},
                 task_queue := filter (\<lambda>r. id_t (heap s r) \<noteq> i) (task_queue s)\<rparr>"
    have e: "step s e = check_unblocked_tasks ?s1 i"
      using True by (simp add: ForceComplete force_complete_task_def)
    have p: "\<not> is_processing_active ?s1" using assms(1) by simp
    show ?thesis
      unfolding e using check_unblocked_paused [OF p, of i] ForceComplete assms(1) by auto
  qed
next
  case (ResetStatus i)
  let ?s1 = "s\<lparr>completed_tasks := completed_tasks s |-| {|i|},
                 in_progress_tasks := in_progress_tasks s |-| {|i|},
                 task_queue := filter (\<lambda>r. id_t (heap s r) \<noteq> i) (task_queue s)\<rparr>"
  have p: "\<not> is_processing_active ?s1" using assms(1) by simp
  show ?thesis
  proof (cases "pending_tasks s i")
    case None
    then show ?thesis using assms ResetStatus by (auto simp: reset_task_status_def)
  next
    case (Some r)
    then have e: "step s e = evaluate_task_readiness ?s1 r"
      by (simp add: ResetStatus reset_task_status_def)
    show ?thesis
      unfolding e using evaluate_paused [OF p, of r] ResetStatus assms(1) by auto
  qed
next
  case (StartNext env)
  then show ?thesis using assms
    by (auto simp: start_next_def Let_def created_ids_def
          split: list.splits prod.splits sum.splits)
next
  case (Finish r env)
  show ?thesis
  proof (cases "map_of (running s) r")
    case None
    then show ?thesis using assms Finish by (simp add: finish_execution_def)
  next
    case (Some same)
    let ?s0 = "s\<lparr>running := remove1 (r, same) (running s)\<rparr>"
    let ?i = "id_t (heap s r)"
    let ?t = "if same then heap s r else (heap s r)\<lparr>status := IN_PROGRESS\<rparr>"
    obtain st res where
      ex: "execute_rest env ?i ([task_status_update ?i IN_PROGRESS], ?t) = (st, res)"
      by (cases "execute_rest env ?i ([task_status_update ?i IN_PROGRESS], ?t)") auto
    let ?s1 = "if same then ?s0\<lparr>heap := (heap s)(r := snd st)\<rparr> else ?s0"
    show ?thesis
    proof (cases res)
      case (Inl x)
      then show ?thesis using assms Finish Some ex
        by (cases same; cases "is_exception x") (auto simp: finish_execution_def Let_def)
    next
      case (Inr t')
      let ?s2 = "?s1\<lparr>completed_tasks := finsert ?i (completed_tasks ?s1),
                      in_progress_tasks := in_progress_tasks ?s1 |-| {|?i|}\<rparr>"
      have e: "step s e = check_unblocked_tasks ?s2 ?i"
        using Some Inr ex
        by (cases same) (auto simp: Finish finish_execution_def Let_def mark_completed_def)
      have p: "\<not> is_processing_active ?s2" using assms(1) by simp
      show ?thesis
        unfolding e
        using check_unblocked_paused [OF p, of ?i] assms(1) Finish
        by (cases same) auto
    qed
  qed
qed (use assms in simp_all)

subsection \<open>Evaluating the scenarios\<close>

lemmas io_defs =
  ret_def throw_def bnd_def except_Exception_def broadcast_def may_raise_def
  set_status_def get_task_def

lemma send_chunks_quiet:
  "sink_raises env = (\<lambda>sent ev. None) \<Longrightarrow>
   send_chunks env i cs st =
     ((fst st @ map (dev_agent_llm_streaming_chunk i) cs, snd st), Inr ())"
  by (induction cs arbitrary: st) (simp_all add: broadcast_def)

subsection \<open>Admission on resume and the start of a coroutine\<close>

lemma resume_admits:
  assumes "q \<in> set (take (free_slots s) (task_queue s))"
      and "id_t (heap s q) |\<notin>| in_progress_tasks s"
  shows "q \<in> set (created (resume_processing s))"
proof -
  from assms(1) have pos: "0 < free_slots s" by (cases "free_slots s") auto
  then have slot: "fcard (in_progress_tasks s) < max_concurrent_tasks s"
    by (simp add: free_slots_def)
  from assms(1) have "q \<in> set (task_queue s)" by (rule in_set_takeD)
  with slot assms(2) show ?thesis
    by (simp add: resume_processing_def process_ready_tasks_eq)
qed

lemma start_next_in_flight:
  assumes "created s = q # rest"
      and "sink_raises env [] (task_status_update (id_t (heap s q)) IN_PROGRESS) = None"
      and "iterdir_raises env = None" and "mkdir_raises env = None"
  shows "id_t (heap s q) |\<in>| in_progress_tasks (start_next s env)"
  using assms
  by (auto simp: start_next_def Let_def execute_prefix_def io_defs
        split: prod.splits sum.splits)

lemmas run =
  handle_plan_start_def handle_task_from_pm_def evaluate_task_readiness_def
  add_to_execution_queue_def process_ready_tasks_eq queue_ids_def start_next_def
  pause_processing_def resume_processing_def init_def store_def mk_task_def Let_def
  fcard_finsert_if fcard_fempty plan0_def execute_task_def execute_prefix_def
  execute_rest_def try_block_def save_main_file_def stream_code_from_llm_def io_defs
  strip_def py_isspace_def env_ok_def some_code_def finish_execution_def
  mark_completed_def check_unblocked_tasks_eq unblocked_by_def force_complete_task_def
  reset_task_status_def handle_priority_change_def

section \<open>The claims\<close>

text \<open>
  Claim C1: after a task's execution finishes the coordinator marks it completed and runs
  the unblock cascade only if its terminal status is COMPLETED; a task whose only unmet
  dependency ended FAILED is never enqueued.

  The code does not do this. B waits for A alone; the stream for A delivers only white
  space, so \<open>execute_task\<close> returns A with status FAILED; the wrapper still puts A into the
  completed set and the cascade takes B out of waiting and launches it.
\<close>

theorem failed_task_unblocks_dependent:
  "waiting_for_dependencies fail_run = [(''B'', {|''A''|})] \<and>
   snd (execute_task env_blank (heap fail_run 0)) = Inr ((store 0)\<lparr>status := FAILED\<rparr>) \<and>
   ''A'' |\<in>| completed_tasks (finish_execution fail_run 0 env_blank) \<and>
   waiting_for_dependencies (finish_execution fail_run 0 env_blank) = [(''B'', {||})] \<and>
   created (finish_execution fail_run 0 env_blank) = [1]"
  by (simp add: fail_run_def env_blank_def run)

text \<open>
  Claim C2: the number of in-flight task ids never exceeds the concurrency limit (2); of
  three independent tasks submitted together exactly two begin at once.

  The code does not do this. Three independent tasks are queued while processing is paused;
  one call of \<open>resume_processing\<close> launches all three, and once their coroutines have
  started three ids are in flight under a limit of two.
\<close>

theorem concurrency_limit_exceeded:
  "max_concurrent_tasks burst = 2 \<and> created burst = [0, 2, 3] \<and> task_queue burst = [] \<and>
   in_progress_tasks
     (start_next (start_next (start_next burst (env_ok some_code)) (env_ok some_code))
        (env_ok some_code)) = {|''E'', ''C'', ''A''|} \<and>
   fcard (in_progress_tasks
     (start_next (start_next (start_next burst (env_ok some_code)) (env_ok some_code))
        (env_ok some_code))) = 3"
  by (simp add: burst_def run)

text \<open>
  Claim C3: a task id is in at most one of the waiting map (with unmet dependencies), the
  ready queue and the in-flight set, also after registering a task whose dependencies are
  all completed already.

  The code does not do this. B arrives when its only dependency A is completed:
  \<open>handle_task_from_pm\<close> stores the declared dependencies as B's waiting set, the ready
  branch of \<open>_evaluate_task_readiness\<close> leaves that set as it is, and B is put into the
  queue. B is then waiting on a non-empty set and queued and, after admission, waiting and
  in flight.
\<close>

theorem ready_task_left_in_waiting_map:
  "''A'' |\<in>| completed_tasks late_B \<and>
   map_of (waiting_for_dependencies late_B) ''B'' = Some {|''A''|} \<and>
   ''B'' \<in> set (queue_ids late_B) \<and>
   map_of (waiting_for_dependencies
             (start_next (resume_processing late_B) (env_ok some_code))) ''B''
     = Some {|''A''|} \<and>
   ''B'' |\<in>| in_progress_tasks (start_next (resume_processing late_B) (env_ok some_code))"
  by (simp add: late_B_def run)

text \<open>
  Claim C4, as amended: enqueue appends a task only if its id is not already in the ready
  queue; when the id is in the queue the call changes nothing, and otherwise the task is
  appended and admission is tried. The in-flight set is not read by enqueue (it is read at
  admission and at the start of the coroutine).
\<close>

theorem enqueue_guard:
  "(id_t (heap s r) \<in> set (queue_ids s) \<longrightarrow> add_to_execution_queue s r = s) \<and>
   (task_queue (add_to_execution_queue s r) \<noteq> task_queue s
      \<longrightarrow> id_t (heap s r) \<notin> set (queue_ids s)) \<and>
   (id_t (heap s r) \<notin> set (queue_ids s) \<longrightarrow>
      add_to_execution_queue s r = process_ready_tasks (s\<lparr>task_queue := task_queue s @ [r]\<rparr>))"
  by (auto simp: add_to_execution_queue_def)

theorem enqueue_guard_witness:
  "id_t (heap queued_A 0) \<in> set (queue_ids queued_A) \<and>
   add_to_execution_queue queued_A 0 = queued_A \<and>
   task_queue (add_to_execution_queue in_flight_A 0) \<noteq> task_queue in_flight_A \<and>
   id_t (heap in_flight_A 0) \<notin> set (queue_ids in_flight_A) \<and>
   add_to_execution_queue in_flight_A 0 =
     process_ready_tasks (in_flight_A\<lparr>task_queue := task_queue in_flight_A @ [0]\<rparr>)"
  using enqueue_guard [of queued_A 0] enqueue_guard [of in_flight_A 0]
  by (simp add: queued_A_def in_flight_A_def run)

text \<open>
  The claim as it was stated fails: A is in flight, and enqueueing A again changes the
  ready queue.
\<close>

theorem enqueue_in_flight_counterexample:
  "id_t (heap in_flight_A 0) |\<in>| in_progress_tasks in_flight_A \<and>
   task_queue in_flight_A = [] \<and>
   task_queue (add_to_execution_queue in_flight_A 0) = [0]"
  by (simp add: in_flight_A_def run)

text \<open>
  Claim C5: completing the same task id twice is idempotent: the second call shrinks no
  waiting set, enqueues nothing and leaves the completed set as it is. Here the whole state
  after the second call is the state after the first.
\<close>

theorem mark_completed_idempotent:
  "mark_completed (mark_completed s a) a = mark_completed s a"
proof -
  let ?s' = "mark_completed s a"
  have c: "finsert a (completed_tasks ?s') = completed_tasks ?s'"
    by (auto simp: mark_completed_def)
  have i: "in_progress_tasks ?s' |-| {|a|} = in_progress_tasks ?s'"
    by (auto simp: mark_completed_def)
  have "mark_completed ?s' a = check_unblocked_tasks ?s' a"
    by (subst mark_completed_def) (simp only: c i, simp)
  also have "\<dots> = ?s'"
    unfolding mark_completed_def by (rule check_unblocked_tasks_twice)
  finally show ?thesis .
qed

text \<open>
  Claim C6, as amended: when the accumulated text is empty or white space only,
  \<open>execute_task\<close> returns the task with status FAILED after notifying the sink; and
  \<open>execute_task\<close> does not raise past its own boundary, but returns the task with status
  COMPLETED or FAILED, whether the generation service raises a classified or an unexpected
  error, a file write raises or the content check fails, provided that the first
  notification, clearing and creating the output directory went through, that the sink does
  not raise, and that what is raised is an \<open>Exception\<close>. Whenever it returns FAILED the last
  notification sent is the FAILED status update.
\<close>

theorem execute_task_terminal:
  assumes "sink_raises env = (\<lambda>sent ev. None)"
    and "iterdir_raises env = None" and "mkdir_raises env = None"
    and "only_exception (llm_raises env)" and "only_exception (write_main_raises env)"
    and "only_exception (write_fallback_raises env)"
    and "only_exception (write_metadata_raises env)"
  shows "\<exists>t'. snd (execute_task env t) = Inr t' \<and> snd (fst (execute_task env t)) = t'
            \<and> id_t t' = id_t t
            \<and> (status t' = COMPLETED \<or> status t' = FAILED)
            \<and> (status t' = FAILED \<longrightarrow>
                  last (fst (fst (execute_task env t))) = task_status_update (id_t t) FAILED)
            \<and> (llm_raises env \<noteq> None \<longrightarrow> status t' = FAILED)
            \<and> (strip (concat (llm_chunks env)) = [] \<longrightarrow> status t' = FAILED)"
  using assms
  by (auto simp: execute_task_def execute_prefix_def execute_rest_def try_block_def
        save_main_file_def stream_code_from_llm_def io_defs send_chunks_quiet
        only_exception_def
        split: option.splits sum.splits prod.splits)

theorem execute_task_terminal_witness:
  "sink_raises env_blank = (\<lambda>sent ev. None) \<and>
   iterdir_raises env_blank = None \<and> mkdir_raises env_blank = None \<and>
   only_exception (llm_raises env_blank) \<and> only_exception (write_main_raises env_blank) \<and>
   only_exception (write_fallback_raises env_blank) \<and>
   only_exception (write_metadata_raises env_blank) \<and>
   strip (concat (llm_chunks env_blank)) = [] \<and>
   snd (execute_task env_blank (store 0)) = Inr ((store 0)\<lparr>status := FAILED\<rparr>) \<and>
   last (fst (fst (execute_task env_blank (store 0)))) = task_status_update ''A'' FAILED"
  using execute_task_terminal [of env_blank "store 0"]
  by (simp add: env_blank_def only_exception_def run)

text \<open>
  The claim as it was stated fails in three ways. Creating the output directory raises,
  before the guarded block. The coroutine is cancelled during the stream, and the handlers,
  which catch \<open>Exception\<close>, let the cancellation through. The generation service fails and
  the sink raises on the FAILED notification, inside the handler. Each time an exception
  leaves \<open>execute_task\<close> and no task is returned.
\<close>

theorem execute_task_raises_counterexample:
  "snd (execute_task env_no_dir (store 0)) = Inl (OSError ''File name too long'') \<and>
   snd (execute_task env_cancelled (store 0)) = Inl CancelledError \<and>
   snd (execute_task env_sink_down (store 0)) = Inl (OtherException ''connection closed'')"
  by (simp add: env_no_dir_def env_cancelled_def env_sink_down_def run)

text \<open>
  Claim C7: changing the priority of a task that is in the ready queue removes it and puts
  it back immediately before the first queued task of strictly lower priority, at the end
  when there is none; the other tasks keep their order.
\<close>

theorem priority_change_reinserts:
  assumes "pending_tasks s i = Some r" and "r \<in> set (task_queue s)"
  shows "fst (handle_priority_change s i p) = True \<and>
     priority (heap (snd (handle_priority_change s i p)) r) = p \<and>
     task_queue (snd (handle_priority_change s i p)) =
       takeWhile (\<lambda>q. \<not> priority (heap (snd (handle_priority_change s i p)) q) < p)
          (remove1 r (task_queue s)) @
       r # dropWhile (\<lambda>q. \<not> priority (heap (snd (handle_priority_change s i p)) q) < p)
          (remove1 r (task_queue s)) \<and>
     filter (\<lambda>q. q \<noteq> r) (task_queue (snd (handle_priority_change s i p))) =
       filter (\<lambda>q. q \<noteq> r) (task_queue s) \<and>
     heap (snd (handle_priority_change s i p)) =
       (heap s)(r := (heap s r)\<lparr>priority := p\<rparr>)"
proof -
  let ?h = "(heap s)(r := (heap s r)\<lparr>priority := p\<rparr>)"
  have res: "handle_priority_change s i p =
      (True, s\<lparr>heap := ?h,
               task_queue := insert_by_priority ?h r (remove1 r (task_queue s))\<rparr>)"
    using assms by (simp add: handle_priority_change_def Let_def)
  have others: "filter (\<lambda>q. q \<noteq> r) (insert_by_priority ?h r (remove1 r (task_queue s))) =
      filter (\<lambda>q. q \<noteq> r) (task_queue s)"
    by (simp only: filter_insert_by_priority filter_remove1_self)
  have place: "insert_by_priority ?h r (remove1 r (task_queue s)) =
      takeWhile (\<lambda>q. \<not> priority (?h q) < p) (remove1 r (task_queue s)) @
      r # dropWhile (\<lambda>q. \<not> priority (?h q) < p) (remove1 r (task_queue s))"
    by (subst insert_by_priority_eq) simp
  show ?thesis
    unfolding res using others place by simp
qed

theorem priority_change_reinserts_witness:
  "pending_tasks three_queued ''E'' = Some 3 \<and> 3 \<in> set (task_queue three_queued) \<and>
   task_queue three_queued = [0, 2, 3] \<and>
   task_queue (snd (handle_priority_change three_queued ''E'' 5)) = [3, 0, 2] \<and>
   pending_tasks three_queued ''A'' = Some 0 \<and> 0 \<in> set (task_queue three_queued) \<and>
   task_queue (snd (handle_priority_change three_queued ''A'' 0)) = [2, 3, 0]"
  using priority_change_reinserts [of three_queued "''E''" 3 5]
        priority_change_reinserts [of three_queued "''A''" 0 0]
  by (simp add: three_queued_def run)

text \<open>
  Claim C8, as amended: force_complete on a known task id returns True, adds the id to the
  completed set, removes it from the in-flight set, filters it out of the ready queue and
  then runs the unblock cascade: the id leaves every waiting set and the pending tasks whose
  waiting set held it alone are enqueued. The task object, and so its status, is left as
  it was.
\<close>

theorem force_complete_effect:
  assumes "pending_tasks s i = Some r"
  shows "fst (force_complete_task s i) = True \<and>
     heap (snd (force_complete_task s i)) = heap s \<and>
     completed_tasks (snd (force_complete_task s i)) = finsert i (completed_tasks s) \<and>
     in_progress_tasks (snd (force_complete_task s i)) = in_progress_tasks s |-| {|i|} \<and>
     waiting_for_dependencies (snd (force_complete_task s i)) =
        map (\<lambda>(k, w). (k, w |-| {|i|})) (waiting_for_dependencies s) \<and>
     snd (force_complete_task s i) =
        foldl add_to_execution_queue
          (s\<lparr>completed_tasks := finsert i (completed_tasks s),
             in_progress_tasks := in_progress_tasks s |-| {|i|},
             task_queue := filter (\<lambda>q. id_t (heap s q) \<noteq> i) (task_queue s),
             waiting_for_dependencies :=
               map (\<lambda>(k, w). (k, w |-| {|i|})) (waiting_for_dependencies s)\<rparr>)
          (unblocked_by i (pending_tasks s) (waiting_for_dependencies s))"
  using assms
  by (simp add: force_complete_task_def check_unblocked_tasks_eq domI)

theorem force_complete_effect_witness:
  "pending_tasks blocked_B ''A'' = Some 0 \<and> task_queue blocked_B = [0] \<and>
   waiting_for_dependencies blocked_B = [(''B'', {|''A''|})] \<and>
   fst (force_complete_task blocked_B ''A'') = True \<and>
   completed_tasks (snd (force_complete_task blocked_B ''A'')) = {|''A''|} \<and>
   waiting_for_dependencies (snd (force_complete_task blocked_B ''A'')) = [(''B'', {||})] \<and>
   task_queue (snd (force_complete_task blocked_B ''A'')) = [1]"
  using force_complete_effect [of blocked_B "''A''" 0]
  by (simp add: blocked_B_def run)

text \<open>
  The claim as it was stated fails: A is known and PENDING, and after force_complete its
  status is still PENDING.
\<close>

theorem force_complete_status_counterexample:
  "pending_tasks queued_A ''A'' = Some 0 \<and> fst (force_complete_task queued_A ''A'') \<and>
   ''A'' |\<in>| completed_tasks (snd (force_complete_task queued_A ''A'')) \<and>
   status (heap (snd (force_complete_task queued_A ''A'')) 0) = PENDING"
  by (simp add: queued_A_def run)

text \<open>
  Claim C9, as amended: while processing is paused no task is admitted from the ready queue
  to the in-flight set and the queued tasks stay queued; a task queued before the pause is
  admitted by resume when its own id is not in flight and the ids in flight, the coroutines
  launched but not yet started and the tasks ahead of it in the queue are together fewer
  than the limit.

  For every step taken while processing is switched off, other than the two that switch it
  on: processing stays off, no coroutine is launched, the in-flight set gains only ids of
  coroutines launched earlier, and every queued task that the step does not discard on
  purpose (emergency stop, force_complete or reset of that id) is still queued. The
  admission routine itself does nothing, and pausing keeps the queue. On resume a queued
  task within the free slots, whose id is not in flight, is launched; its coroutine puts
  the id in flight when it starts, if the first notification and the preparation of the
  output directory go through.
\<close>

theorem paused_no_admission:
  "(\<not> is_processing_active s \<and> \<not> activates e \<longrightarrow>
      \<not> is_processing_active (step s e) \<and>
      set (created (step s e)) \<subseteq> set (created s) \<and>
      in_progress_tasks (step s e) |\<subseteq>| in_progress_tasks s |\<union>| created_ids s \<and>
      (\<forall>r. r \<in> set (task_queue s) \<and> \<not> discards s e r
           \<longrightarrow> r \<in> set (task_queue (step s e)))) \<and>
   (\<not> is_processing_active s \<longrightarrow> process_ready_tasks s = s) \<and>
   \<not> is_processing_active (pause_processing s) \<and>
   task_queue (pause_processing s) = task_queue s \<and>
   (q \<in> set (take (free_slots s) (task_queue s)) \<and>
    id_t (heap s q) |\<notin>| in_progress_tasks s \<longrightarrow>
      q \<in> set (created (resume_processing s))) \<and>
   (created s = q # rest \<and>
    sink_raises env [] (task_status_update (id_t (heap s q)) IN_PROGRESS) = None \<and>
    iterdir_raises env = None \<and> mkdir_raises env = None \<longrightarrow>
      id_t (heap s q) |\<in>| in_progress_tasks (start_next s env))"
  using paused_step [of s e] resume_admits [of q s] start_next_in_flight [of s q rest env]
  by (simp add: process_ready_tasks_eq pause_processing_def)

theorem paused_no_admission_witness:
  "\<not> is_processing_active full_E \<and> task_queue full_E = [3] \<and>
   in_progress_tasks full_E = {|''C'', ''A''|} \<and>
   \<not> activates (Finish 0 (env_ok some_code)) \<and>
   \<not> discards full_E (Finish 0 (env_ok some_code)) 3 \<and>
   task_queue (step full_E (Finish 0 (env_ok some_code))) = [3] \<and>
   created (step full_E (Finish 0 (env_ok some_code))) = [] \<and>
   process_ready_tasks full_E = full_E \<and>
   free_slots (step full_E (Finish 0 (env_ok some_code))) = 1 \<and>
   3 \<in> set (take (free_slots (step full_E (Finish 0 (env_ok some_code))))
               (task_queue (step full_E (Finish 0 (env_ok some_code))))) \<and>
   created (resume_processing (step full_E (Finish 0 (env_ok some_code)))) = [3] \<and>
   sink_raises (env_ok some_code) [] (task_status_update ''E'' IN_PROGRESS) = None \<and>
   iterdir_raises (env_ok some_code) = None \<and> mkdir_raises (env_ok some_code) = None \<and>
   ''E'' |\<in>| in_progress_tasks
     (start_next (resume_processing (step full_E (Finish 0 (env_ok some_code))))
        (env_ok some_code))"
  using paused_no_admission [of full_E "Finish 0 (env_ok some_code)" 3 "[]" "env_ok some_code"]
        paused_no_admission
          [of "step full_E (Finish 0 (env_ok some_code))" Pause 3 "[]" "env_ok some_code"]
        paused_no_admission
          [of "resume_processing (step full_E (Finish 0 (env_ok some_code)))" Pause 3 "[]"
              "env_ok some_code"]
  by (simp add: full_E_def free_slots_def fcard_fminus_fsingleton_if run)

text \<open>
  The claim as it was stated fails: E was queued behind two running tasks before the pause;
  resume finds both slots taken and leaves E in the queue, and E is still queued, with no
  coroutine launched, after one of the two has completed.
\<close>

theorem resume_full_slots_counterexample:
  "task_queue full_E = [3] \<and> \<not> is_processing_active full_E \<and>
   is_processing_active (resume_processing full_E) \<and>
   task_queue (resume_processing full_E) = [3] \<and>
   created (resume_processing full_E) = [] \<and>
   in_progress_tasks (resume_processing full_E) = {|''C'', ''A''|} \<and>
   task_queue (finish_execution (resume_processing full_E) 0 (env_ok some_code)) = [3] \<and>
   created (finish_execution (resume_processing full_E) 0 (env_ok some_code)) = [] \<and>
   ''A'' |\<notin>| in_progress_tasks
      (finish_execution (resume_processing full_E) 0 (env_ok some_code)) \<and>
   ''E'' |\<notin>| in_progress_tasks
      (finish_execution (resume_processing full_E) 0 (env_ok some_code))"
  by (simp add: full_E_def run)

text \<open>
  Claim C10: for a task id that is not in the pending table, reset_task_status returns
  False without raising, but it has by then removed the id from the completed set and the
  in-flight set and filtered it out of the ready queue.
\<close>

theorem reset_unknown_not_atomic:
  assumes "pending_tasks s i = None"
  shows "reset_task_status s i =
     (False, s\<lparr>completed_tasks := completed_tasks s |-| {|i|},
                in_progress_tasks := in_progress_tasks s |-| {|i|},
                task_queue := filter (\<lambda>r. id_t (heap s r) \<noteq> i) (task_queue s)\<rparr>)"
  using assms by (simp add: reset_task_status_def)

theorem reset_unknown_not_atomic_witness:
  "pending_tasks stale ''A'' = None \<and> ''A'' |\<in>| completed_tasks stale \<and>
   fst (reset_task_status stale ''A'') = False \<and>
   completed_tasks (snd (reset_task_status stale ''A'')) = {||} \<and>
   snd (reset_task_status stale ''A'') \<noteq> stale"
  using reset_unknown_not_atomic [of stale "''A''"]
  by (auto simp: stale_def run)

end
